theory Spec2Isabelle
  imports Main
begin

section \<open>Values, arrays and the component state of \<open>src/App.js\<close>\<close>

text \<open>
  A square of the board holds \<open>null\<close> or a marker string. A JavaScript value that is
  \<open>null\<close> or \<open>undefined\<close> is \<open>None\<close> here: the component only ever tests such a value
  for truthiness or prints it, and both behave alike there. A string is \<open>Some s\<close>.
\<close>

type_synonym cell = "string option"
type_synonym board = "cell list"

datatype error = TypeError

text \<open>Truthiness of a cell, as \<open>squares[a] && ...\<close> tests it: \<open>null\<close>, \<open>undefined\<close> and the
  empty string are falsy, every other string is truthy.\<close>

definition truthy :: "cell \<Rightarrow> bool" where
  "truthy c = (case c of None \<Rightarrow> False | Some s \<Rightarrow> s \<noteq> [])"

text \<open>\<open>xs[i]\<close>: a read past the end of an array gives \<open>undefined\<close>.\<close>

definition js_get :: "'a option list \<Rightarrow> nat \<Rightarrow> 'a option" where
  "js_get xs i = (if i < length xs then xs ! i else None)"

text \<open>\<open>xs[i] = v\<close>: a write past the end extends the array, the skipped slots being holes
  (which read as \<open>undefined\<close>).\<close>

definition js_set :: "'a option list \<Rightarrow> nat \<Rightarrow> 'a option \<Rightarrow> 'a option list" where
  "js_set xs i v =
     (if i < length xs then xs[i := v]
      else xs @ replicate (i - length xs) None @ [v])"

text \<open>The three \<open>useState\<close> cells of \<open>Game\<close>. \<open>squares\<close> is \<open>None\<close> when the state holds
  \<open>null\<close> instead of an array; \<open>history\<close> is always an array, of snapshots or \<open>null\<close>.\<close>

record game =
  roundNum :: nat
  squares :: "board option"
  history :: "board option list"

definition p1 :: string where
  "p1 = ''X''"

definition p2 :: string where
  "p2 = ''O''"

text \<open>The initial values of the three \<open>useState\<close> calls.\<close>

definition initial :: game where
  "initial = \<lparr>roundNum = 0, squares = Some (replicate 9 None), history = replicate 9 None\<rparr>"

section \<open>\<open>calculateWinner\<close>\<close>

definition lines :: "(nat \<times> nat \<times> nat) list" where
  "lines = [(0, 1, 2), (3, 4, 5), (6, 7, 8), (0, 3, 6), (1, 4, 7), (2, 5, 8), (0, 4, 8), (2, 4, 6)]"

text \<open>The \<open>for\<close> loop over \<open>lines\<close>, on the lines still to visit. \<open>None\<close> is the \<open>false\<close> the
  function returns after the loop.\<close>

fun winner_loop :: "board \<Rightarrow> (nat \<times> nat \<times> nat) list \<Rightarrow> string option" where
  "winner_loop sq [] = None"
| "winner_loop sq ((a, b, c) # ls) =
     (if truthy (js_get sq a) \<and> truthy (js_get sq b) \<and> truthy (js_get sq c) \<and>
         js_get sq a = js_get sq b \<and> js_get sq a = js_get sq c \<and> js_get sq b = js_get sq c
      then js_get sq a
      else winner_loop sq ls)"

text \<open>\<open>calculateWinner\<close> reads the \<open>squares\<close> of the closure; indexing \<open>null\<close> raises.\<close>

definition calculateWinner :: "board option \<Rightarrow> error + string option" where
  "calculateWinner s = (case s of None \<Rightarrow> Inl TypeError | Some sq \<Rightarrow> Inr (winner_loop sq lines))"

section \<open>\<open>checkGameOver\<close> and the render\<close>

text \<open>\<open>checkGameOver\<close> assigns \<open>status\<close> and decides whether the \<open>Again?\<close> button is shown;
  the pair returned is (\<open>status\<close>, \<open>againContent\<close> is set).\<close>

definition checkGameOver :: "nat \<Rightarrow> string option \<Rightarrow> string \<times> bool" where
  "checkGameOver rn winner =
     (if rn \<ge> 9 then ''Game Over, it's a draw!''
      else if truthy winner then ''Winner: '' @ the winner
      else ''Next player: '' @ (if rn mod 2 = 0 then p1 else p2),
      rn \<ge> 9 \<or> truthy winner)"

text \<open>The body of \<open>Game\<close> up to \<open>checkGameOver()\<close>: the winner is computed first.\<close>

definition render :: "game \<Rightarrow> error + string \<times> bool" where
  "render g =
     (case calculateWinner (squares g) of
        Inl e \<Rightarrow> Inl e
      | Inr winner \<Rightarrow> Inr (checkGameOver (roundNum g) winner))"

section \<open>The handlers\<close>

definition reloadPage :: "game \<Rightarrow> game" where
  "reloadPage g = \<lparr>roundNum = 0, squares = Some (replicate 9 None), history = replicate 9 None\<rparr>"

text \<open>The loop of \<open>backToState\<close>: \<open>for (let i = index; i < history.length; i++)
  modifiedHistory[i] = null\<close>, with \<open>n\<close> the length of \<open>history\<close>.\<close>

function clear_loop :: "nat \<Rightarrow> nat \<Rightarrow> board option list \<Rightarrow> board option list" where
  "clear_loop i n mh = (if i < n then clear_loop (Suc i) n (js_set mh i None) else mh)"
  by pat_completeness auto
termination
  by (relation "measure (\<lambda>(i, n, mh). n - i)") auto

definition backToState :: "nat \<Rightarrow> game \<Rightarrow> game" where
  "backToState index g =
     \<lparr>roundNum = index,
      squares = js_get (history g) index,
      history = clear_loop index (length (history g)) (history g)\<rparr>"

text \<open>\<open>Clicked\<close>: \<open>squares[index]\<close> raises when \<open>squares\<close> is \<open>null\<close>; \<open>||\<close> calls
  \<open>calculateWinner\<close> only when the square is falsy.\<close>

definition Clicked :: "nat \<Rightarrow> game \<Rightarrow> error + game" where
  "Clicked index g =
     (case squares g of
        None \<Rightarrow> Inl TypeError
      | Some sq \<Rightarrow>
          if truthy (js_get sq index) then Inr g
          else
            (case calculateWinner (squares g) of
               Inl e \<Rightarrow> Inl e
             | Inr w \<Rightarrow>
                 if truthy w then Inr g
                 else
                   Inr \<lparr>roundNum = roundNum g + 1,
                        squares = Some (js_set sq index (Some (if roundNum g mod 2 = 0 then p1 else p2))),
                        history = js_set (history g) (roundNum g) (Some sq)\<rparr>))"

section \<open>The controls of the page\<close>

text \<open>
  What a user can do: click one of the nine squares that \<open>renderRowFrom(0)\<close>,
  \<open>renderRowFrom(3)\<close> and \<open>renderRowFrom(6)\<close> lay out, click a \<open>Back to move i\<close> button
  (\<open>history.map\<close> renders one for every slot that holds a snapshot), or click \<open>Again?\<close>.
  The page shows \<open>Again?\<close> only once the game is over; it is taken as always available
  here, which reaches the same states, since \<open>reloadPage\<close> ignores the state it is
  called in.
\<close>

datatype event = Click nat | Back nat | Again

definition offered :: "game \<Rightarrow> event \<Rightarrow> bool" where
  "offered g e =
     (case e of
        Click i \<Rightarrow> i < 9
      | Back i \<Rightarrow> js_get (history g) i \<noteq> None
      | Again \<Rightarrow> True)"

fun fire :: "event \<Rightarrow> game \<Rightarrow> error + game" where
  "fire (Click i) g = Clicked i g"
| "fire (Back i) g = Inr (backToState i g)"
| "fire Again g = Inr (reloadPage g)"

text \<open>A session: the events in order, each on the state the previous one left. \<open>None\<close>
  when an event is not on the page or its handler raises.\<close>

fun run :: "game \<Rightarrow> event list \<Rightarrow> game option" where
  "run g [] = Some g"
| "run g (e # es) =
     (if offered g e
      then (case fire e g of Inl err \<Rightarrow> None | Inr g' \<Rightarrow> run g' es)
      else None)"

section \<open>The specification's \<open>ComputeWinner\<close>\<close>

text \<open>
  The specification describes the winner as the shared marker of the first of the
  eight triples, in the order it lists them, whose three cells are equal and non-empty.
  A cell is non-empty when it holds a marker: \<open>null\<close> holds none, and neither does the
  empty string.
\<close>

definition nonempty :: "cell \<Rightarrow> bool" where
  "nonempty c = (c \<noteq> None \<and> c \<noteq> Some [])"

definition full_line :: "board \<Rightarrow> nat \<times> nat \<times> nat \<Rightarrow> bool" where
  "full_line sq l =
     (case l of (a, b, c) \<Rightarrow>
        nonempty (js_get sq a) \<and> nonempty (js_get sq b) \<and> nonempty (js_get sq c) \<and>
        js_get sq a = js_get sq b \<and> js_get sq b = js_get sq c)"

definition ComputeWinner :: "board \<Rightarrow> string option" where
  "ComputeWinner sq =
     (case find (full_line sq)
        [(0, 1, 2), (3, 4, 5), (6, 7, 8), (0, 3, 6), (1, 4, 7), (2, 5, 8), (0, 4, 8), (2, 4, 6)] of
        None \<Rightarrow> None
      | Some (a, b, c) \<Rightarrow> js_get sq a)"

section \<open>The invariant of a session\<close>

definition marks :: "board \<Rightarrow> nat" where
  "marks sq = length (filter (\<lambda>c. c \<noteq> None) sq)"

definition wf_cell :: "cell \<Rightarrow> bool" where
  "wf_cell c = (c = None \<or> c = Some p1 \<or> c = Some p2)"

text \<open>A board of nine squares, each empty or a marker, with \<open>n\<close> markers on it.\<close>

definition wf_board :: "nat \<Rightarrow> board \<Rightarrow> bool" where
  "wf_board n sq = (length sq = 9 \<and> list_all wf_cell sq \<and> marks sq = n)"

definition wf_slot :: "nat \<Rightarrow> board option \<Rightarrow> bool" where
  "wf_slot i s = (case s of None \<Rightarrow> True | Some b \<Rightarrow> wf_board i b)"

text \<open>The board carries \<open>roundNum\<close> markers, and the snapshot in slot \<open>i\<close> of the nine
  slots, when there is one, carries \<open>i\<close>.\<close>

definition game_inv :: "game \<Rightarrow> bool" where
  "game_inv g =
     ((case squares g of None \<Rightarrow> False | Some sq \<Rightarrow> wf_board (roundNum g) sq) \<and>
      length (history g) = 9 \<and>
      list_all (\<lambda>i. wf_slot i (history g ! i)) [0..<9])"

section \<open>Sample states and sessions\<close>

text \<open>After X on square 0 and O on square 3.\<close>

definition two_moves :: game where
  "two_moves =
     \<lparr>roundNum = 2,
      squares = Some [Some ''X'', None, None, Some ''O'', None, None, None, None, None],
      history =
        [Some [None, None, None, None, None, None, None, None, None],
         Some [Some ''X'', None, None, None, None, None, None, None, None],
         None, None, None, None, None, None, None]\<rparr>"

text \<open>X holds the top row after five moves.\<close>

definition row_won :: board where
  "row_won = [Some ''X'', Some ''X'', Some ''X'', Some ''O'', Some ''O'', None, None, None, None]"

text \<open>Nine legal moves; no line is complete until X takes square 1 with the ninth and
  completes the top row.\<close>

definition ninth_move_wins :: "event list" where
  "ninth_move_wins =
     [Click 0, Click 3, Click 2, Click 4, Click 5, Click 7, Click 6, Click 8, Click 1]"

text \<open>Nine legal moves that fill the board with no line complete.\<close>

definition drawn_game :: "event list" where
  "drawn_game =
     [Click 0, Click 1, Click 2, Click 4, Click 3, Click 5, Click 7, Click 6, Click 8]"

section \<open>Arrays and the loops\<close>

declare clear_loop.simps [simp del]

lemma js_get_set_same: "js_get (js_set xs i v) i = v"
  by (simp add: js_get_def js_set_def nth_append)

lemma js_get_set_other: "j \<noteq> i \<Longrightarrow> js_get (js_set xs i v) j = js_get xs j"
  by (auto simp: js_get_def js_set_def nth_append)

lemma length_js_set: "i < length xs \<Longrightarrow> length (js_set xs i v) = length xs"
  by (simp add: js_set_def)

lemma clear_loop_eq:
  "length mh = n \<Longrightarrow> clear_loop i n mh = take i mh @ replicate (n - i) None"
proof (induction i n mh rule: clear_loop.induct)
  case (1 i n mh)
  show ?case
  proof (cases "i < n")
    case True
    have "clear_loop i n mh = clear_loop (Suc i) n (js_set mh i None)"
      using True clear_loop.simps[of i n mh] by simp
    also have "\<dots> = take (Suc i) (js_set mh i None) @ replicate (n - Suc i) None"
      using True "1.prems" by (intro "1.IH") (simp_all add: length_js_set)
    also have "\<dots> = take i mh @ replicate (n - i) None"
      using True "1.prems"
      by (simp add: js_set_def take_Suc_conv_app_nth replicate_append_same Suc_diff_Suc flip: replicate_Suc)
    finally show ?thesis .
  next
    case False
    then show ?thesis using "1.prems" clear_loop.simps[of i n mh] by simp
  qed
qed

lemma winner_loop_truthy: "winner_loop sq ls = Some w \<Longrightarrow> w \<noteq> []"
  by (induction sq ls rule: winner_loop.induct) (auto simp: truthy_def split: if_splits option.splits)

lemma truthy_winner_loop: "truthy (winner_loop sq ls) \<longleftrightarrow> winner_loop sq ls \<noteq> None"
  using winner_loop_truthy[of sq ls] by (auto simp: truthy_def split: option.splits)

lemma count_update:
  "i < length xs \<Longrightarrow> \<not> P (xs ! i) \<Longrightarrow> P v \<Longrightarrow>
   length (filter P (xs[i := v])) = Suc (length (filter P xs))"
proof (induction xs arbitrary: i)
  case Nil
  then show ?case by simp
next
  case (Cons x xs)
  then show ?case by (cases i) auto
qed

section \<open>The invariant holds through a session\<close>

lemma game_inv_initial: "game_inv initial"
  by (simp add: game_inv_def initial_def wf_board_def wf_slot_def wf_cell_def marks_def list_all_iff)

lemma game_inv_reloadPage: "game_inv (reloadPage g)"
  by (simp add: game_inv_def reloadPage_def wf_board_def wf_slot_def wf_cell_def marks_def list_all_iff)

lemma wf_cell_truthy: "wf_cell c \<Longrightarrow> truthy c \<longleftrightarrow> c \<noteq> None"
  by (auto simp: wf_cell_def truthy_def p1_def p2_def)

lemma marks_less:
  assumes "i < length sq" and "sq ! i = None"
  shows "marks sq < length sq"
proof -
  have "Suc (marks sq) = marks (sq[i := Some p1])"
    using assms by (simp add: marks_def count_update)
  also have "\<dots> \<le> length (sq[i := Some p1])"
    unfolding marks_def by (rule length_filter_le)
  finally show ?thesis by simp
qed

lemma wf_board_full:
  assumes "wf_board 9 sq" and "i < 9"
  shows "truthy (js_get sq i)"
proof (rule ccontr)
  assume "\<not> truthy (js_get sq i)"
  moreover have "wf_cell (sq ! i)"
    using assms by (simp add: wf_board_def list_all_length)
  ultimately have "sq ! i = None"
    using assms by (simp add: js_get_def wf_board_def wf_cell_truthy)
  then have "marks sq < length sq"
    using assms by (intro marks_less[of i]) (simp_all add: wf_board_def)
  then show False using assms by (simp add: wf_board_def)
qed

lemma wf_board_play:
  assumes "wf_board n sq" and "i < 9" and "\<not> truthy (js_get sq i)" and "m = p1 \<or> m = p2"
  shows "wf_board (Suc n) (js_set sq i (Some m))" and "n < 9"
proof -
  have len: "length sq = 9" and cells: "list_all wf_cell sq" and n: "marks sq = n"
    using assms(1) by (simp_all add: wf_board_def)
  have "wf_cell (sq ! i)"
    using cells len assms(2) by (simp add: list_all_length)
  then have empty: "sq ! i = None"
    using assms(2,3) len by (simp add: js_get_def wf_cell_truthy)
  have set: "js_set sq i (Some m) = sq[i := Some m]"
    using assms(2) len by (simp add: js_set_def)
  have "list_all wf_cell (sq[i := Some m])"
  proof -
    have "wf_cell (Some m)"
      using assms(4) by (auto simp: wf_cell_def)
    then show ?thesis
      using cells set_update_subset_insert[of sq i "Some m"] by (auto simp: list_all_iff)
  qed
  moreover have "marks (sq[i := Some m]) = Suc n"
    using empty assms(2) len n by (simp add: marks_def count_update)
  ultimately show "wf_board (Suc n) (js_set sq i (Some m))"
    using len set by (simp add: wf_board_def)
  show "n < 9"
    using marks_less[of i sq] empty assms(2) len n by simp
qed

lemma Clicked_cases:
  assumes "Clicked index g = Inr g'"
  obtains (noop) "g' = g"
  | (move) sq where "squares g = Some sq" and "\<not> truthy (js_get sq index)"
      and "winner_loop sq lines = None"
      and "g' = \<lparr>roundNum = Suc (roundNum g),
                  squares = Some (js_set sq index (Some (if roundNum g mod 2 = 0 then p1 else p2))),
                  history = js_set (history g) (roundNum g) (Some sq)\<rparr>"
  using assms
  by (auto simp: Clicked_def calculateWinner_def truthy_winner_loop split: option.splits if_splits)

lemma game_inv_Clicked:
  assumes "game_inv g" and "index < 9" and "Clicked index g = Inr g'"
  shows "game_inv g'"
  using assms(3)
proof (cases rule: Clicked_cases)
  case noop
  then show ?thesis using assms(1) by simp
next
  case (move sq)
  have wf: "wf_board (roundNum g) sq"
    using assms(1) move(1) by (simp add: game_inv_def)
  have hlen: "length (history g) = 9"
    and slots: "\<And>i. i < 9 \<Longrightarrow> wf_slot i (history g ! i)"
    using assms(1) by (simp_all add: game_inv_def list_all_iff)
  let ?m = "if roundNum g mod 2 = 0 then p1 else p2"
  have wf': "wf_board (Suc (roundNum g)) (js_set sq index (Some ?m))" and rn: "roundNum g < 9"
    using wf_board_play[OF wf assms(2) move(2), of ?m] by simp_all
  have hset: "js_set (history g) (roundNum g) (Some sq) = (history g)[roundNum g := Some sq]"
    using rn hlen by (simp add: js_set_def)
  have "wf_slot i ((history g)[roundNum g := Some sq] ! i)" if "i < 9" for i
    using that slots[of i] wf hlen by (cases "i = roundNum g") (simp_all add: wf_slot_def)
  then show ?thesis
    using wf' hlen hset move(4) by (simp add: game_inv_def list_all_iff)
qed

lemma game_inv_backToState:
  assumes "game_inv g" and "js_get (history g) k = Some b"
  shows "game_inv (backToState k g)"
proof -
  have hlen: "length (history g) = 9"
    and slots: "\<And>i. i < 9 \<Longrightarrow> wf_slot i (history g ! i)"
    using assms(1) by (simp_all add: game_inv_def list_all_iff)
  have k: "k < 9" and hk: "history g ! k = Some b"
    using assms(2) hlen by (simp_all add: js_get_def split: if_splits)
  have "wf_board k b"
    using slots[OF k] hk by (simp add: wf_slot_def)
  moreover have "wf_slot i ((take k (history g) @ replicate (9 - k) None) ! i)" if "i < 9" for i
    using that slots[of i] hlen by (simp add: nth_append wf_slot_def)
  moreover have "history (backToState k g) = take k (history g) @ replicate (9 - k) None"
    using clear_loop_eq[OF refl, of k "history g"] hlen by (simp add: backToState_def)
  ultimately show ?thesis
    using assms(2) hlen by (simp add: game_inv_def backToState_def list_all_iff)
qed

lemma game_inv_run: "run g es = Some g' \<Longrightarrow> game_inv g \<Longrightarrow> game_inv g'"
proof (induction es arbitrary: g)
  case Nil
  then show ?case by simp
next
  case (Cons e es)
  from Cons.prems(1) obtain g1 where off: "offered g e" and f: "fire e g = Inr g1"
    and r: "run g1 es = Some g'"
    by (auto split: if_splits sum.splits)
  have "game_inv g1"
  proof (cases e)
    case (Click i)
    then show ?thesis using off f Cons.prems(2) by (auto simp: offered_def intro: game_inv_Clicked)
  next
    case (Back k)
    then show ?thesis using off f Cons.prems(2) by (auto simp: offered_def intro: game_inv_backToState)
  next
    case Again
    then show ?thesis using f by (auto simp: game_inv_reloadPage)
  qed
  with r show ?case by (rule Cons.IH)
qed

section \<open>The winner\<close>

lemma winner_loop_find:
  "winner_loop sq ls =
     (case find (full_line sq) ls of None \<Rightarrow> None | Some (a, b, c) \<Rightarrow> js_get sq a)"
proof (induction sq ls rule: winner_loop.induct)
  case (1 sq)
  show ?case by simp
next
  case (2 sq a b c ls)
  have "full_line sq (a, b, c) \<longleftrightarrow>
      truthy (js_get sq a) \<and> truthy (js_get sq b) \<and> truthy (js_get sq c) \<and>
      js_get sq a = js_get sq b \<and> js_get sq a = js_get sq c \<and> js_get sq b = js_get sq c"
    by (auto simp: full_line_def nonempty_def truthy_def split: option.splits)
  with 2 show ?case by simp
qed

text \<open>
  C4: on every board, \<open>calculateWinner\<close> returns what the specification's
  \<open>ComputeWinner\<close> describes: it goes through the eight triples rows \<open>{0,1,2}\<close>,
  \<open>{3,4,5}\<close>, \<open>{6,7,8}\<close>, columns \<open>{0,3,6}\<close>, \<open>{1,4,7}\<close>, \<open>{2,5,8}\<close>, diagonals \<open>{0,4,8}\<close>,
  \<open>{2,4,6}\<close> in that order, returns the shared marker of the first one whose three cells
  are equal and non-empty, and returns none (\<open>false\<close>) when no triple is such.
\<close>

theorem calculateWinner_first_full_line:
  "calculateWinner (Some sq) = Inr (ComputeWinner sq)"
  by (simp add: calculateWinner_def ComputeWinner_def lines_def winner_loop_find)

section \<open>The status line\<close>

text \<open>Below nine rounds the status is the winner's when there is one, and the next
  player's otherwise.\<close>

lemma checkGameOver_below_nine:
  assumes "rn < 9"
  shows "fst (checkGameOver rn (Some (c # cs))) = ''Winner: '' @ c # cs"
    and "fst (checkGameOver rn None) = ''Next player: '' @ (if even rn then ''X'' else ''O'')"
  using assms by (simp_all add: checkGameOver_def truthy_def p1_def p2_def even_iff_mod_2_eq_zero)

text \<open>From nine rounds on the status is the draw, whatever the winner.\<close>

lemma checkGameOver_from_nine:
  "9 \<le> rn \<Longrightarrow> fst (checkGameOver rn w) = ''Game Over, it's a draw!''"
  by (simp add: checkGameOver_def)

text \<open>
  C1: the status is to be the draw only at nine rounds or more with no winner, and the
  winner's message whenever there is a winner, also on a win with the ninth move.
  \<open>checkGameOver\<close> tests \<open>roundNum >= 9\<close> before it looks at the winner: in the session
  \<open>ninth_move_wins\<close> X completes the top row with the ninth move, \<open>calculateWinner\<close>
  returns \<open>X\<close>, and the status shown is the draw.
\<close>

theorem checkGameOver_draw_despite_winner:
  "map_option roundNum (run initial ninth_move_wins) = Some 9 \<and>
   map_option squares (run initial ninth_move_wins) =
     Some (Some [Some ''X'', Some ''X'', Some ''X'', Some ''O'', Some ''O'', Some ''X'',
                 Some ''X'', Some ''O'', Some ''O'']) \<and>
   calculateWinner
     (Some [Some ''X'', Some ''X'', Some ''X'', Some ''O'', Some ''O'', Some ''X'',
            Some ''X'', Some ''O'', Some ''O'']) = Inr (Some ''X'') \<and>
   map_option render (run initial ninth_move_wins) =
     Some (Inr (''Game Over, it's a draw!'', True))"
  by code_simp

section \<open>Reset\<close>

text \<open>
  C8: from every state \<open>reloadPage\<close> gives the start state: a board of nine empty
  squares, round number 0 and nine empty history slots.
\<close>

theorem reloadPage_start:
  "reloadPage g = initial \<and>
   squares (reloadPage g) = Some [None, None, None, None, None, None, None, None, None] \<and>
   roundNum (reloadPage g) = 0 \<and>
   history (reloadPage g) = [None, None, None, None, None, None, None, None, None]"
  by (simp add: reloadPage_def initial_def numeral_eq_Suc)

section \<open>Moves\<close>

text \<open>
  C3: when square \<open>index\<close> of the board is empty and the board has no winner, \<open>Clicked\<close>
  stores the board as it was before the move in \<open>history[roundNum]\<close>, puts \<open>X\<close> on the
  square when \<open>roundNum\<close> is even and \<open>O\<close> when it is odd, and adds exactly 1 to
  \<open>roundNum\<close>. (It holds for every index; the squares of the page are 0 to 8.)
\<close>

theorem Clicked_plays:
  assumes "squares g = Some sq"
    and "js_get sq index = None"
    and "calculateWinner (Some sq) = Inr None"
  shows "\<exists>g' sq'. Clicked index g = Inr g' \<and>
           js_get (history g') (roundNum g) = Some sq \<and>
           squares g' = Some sq' \<and>
           js_get sq' index = Some (if even (roundNum g) then ''X'' else ''O'') \<and>
           roundNum g' = roundNum g + 1"
  using assms
  by (auto simp: Clicked_def truthy_def js_get_set_same p1_def p2_def)

text \<open>The first move of a game, on the centre square.\<close>

theorem Clicked_plays_witness:
  "squares initial = Some (replicate 9 None) \<and>
   js_get (replicate 9 (None :: cell)) 4 = None \<and>
   calculateWinner (Some (replicate 9 None)) = Inr None \<and>
   (\<exists>g' sq'. Clicked 4 initial = Inr g' \<and>
           js_get (history g') (roundNum initial) = Some (replicate 9 None) \<and>
           squares g' = Some sq' \<and>
           js_get sq' 4 = Some (if even (roundNum initial) then ''X'' else ''O'') \<and>
           roundNum g' = roundNum initial + 1)"
proof -
  have a: "squares initial = Some (replicate 9 None)"
    by (simp add: initial_def)
  have b: "js_get (replicate 9 (None :: cell)) 4 = None"
    by (simp add: js_get_def)
  have c: "calculateWinner (Some (replicate 9 None)) = Inr None"
    by (simp add: calculateWinner_def lines_def js_get_def truthy_def)
  show ?thesis
    using a b c Clicked_plays[OF a b c] by simp
qed

text \<open>
  C5: when square \<open>index\<close> is already occupied (it holds a marker), or \<open>calculateWinner\<close>
  returns a marker on the current board, \<open>Clicked\<close> returns normally and leaves the
  board, the round number and the history as they were.
\<close>

theorem Clicked_noop:
  assumes "squares g = Some sq"
    and "truthy (js_get sq index) \<or> (\<exists>m. calculateWinner (Some sq) = Inr (Some m))"
  shows "Clicked index g = Inr g"
  using assms winner_loop_truthy[of sq lines]
  by (auto simp: Clicked_def calculateWinner_def truthy_def split: option.splits)

text \<open>A click on the occupied square 3 after two moves, and a click on the free square 8
  once X holds the top row.\<close>

theorem Clicked_noop_witness:
  "squares two_moves = Some [Some ''X'', None, None, Some ''O'', None, None, None, None, None] \<and>
   truthy (js_get [Some ''X'', None, None, Some ''O'', None, None, None, None, None] 3) \<and>
   Clicked 3 two_moves = Inr two_moves \<and>
   calculateWinner (Some row_won) = Inr (Some ''X'') \<and>
   Clicked 8 \<lparr>roundNum = 5, squares = Some row_won, history = replicate 9 None\<rparr> =
     Inr \<lparr>roundNum = 5, squares = Some row_won, history = replicate 9 None\<rparr>"
proof -
  let ?b = "[Some ''X'', None, None, Some ''O'', None, None, None, None, None]"
  let ?g = "\<lparr>roundNum = 5, squares = Some row_won, history = replicate 9 None\<rparr>"
  have a: "squares two_moves = Some ?b"
    by (simp add: two_moves_def)
  have b: "truthy (js_get ?b 3)"
    by (simp add: truthy_def js_get_def)
  have c: "squares ?g = Some row_won"
    by simp
  have d: "calculateWinner (Some row_won) = Inr (Some ''X'')"
    by code_simp
  have "Clicked 3 two_moves = Inr two_moves"
    using Clicked_noop[OF a, of 3] b by simp
  moreover have "Clicked 8 ?g = Inr ?g"
    using Clicked_noop[OF c, of 8] d by simp
  ultimately show ?thesis
    using a b d by simp
qed

text \<open>
  C9: a \<open>Clicked\<close> that changes the state leaves every square other than \<open>index\<close> and
  every history slot other than slot \<open>roundNum\<close> with the value it had.
\<close>

theorem Clicked_frame:
  assumes "Clicked index g = Inr g'" and "g' \<noteq> g"
  shows "\<exists>sq sq'. squares g = Some sq \<and> squares g' = Some sq' \<and>
           (\<forall>j. j \<noteq> index \<longrightarrow> js_get sq' j = js_get sq j) \<and>
           (\<forall>j. j \<noteq> roundNum g \<longrightarrow> js_get (history g') j = js_get (history g) j)"
  using assms(1)
proof (cases rule: Clicked_cases)
  case noop
  then show ?thesis using assms(2) by simp
next
  case (move sq)
  then show ?thesis by (simp add: js_get_set_other)
qed

text \<open>The third move of a game, on the centre square.\<close>

theorem Clicked_frame_witness:
  "\<exists>g'. Clicked 4 two_moves = Inr g' \<and> g' \<noteq> two_moves \<and>
     (\<exists>sq sq'. squares two_moves = Some sq \<and> squares g' = Some sq' \<and>
        js_get sq' 0 = js_get sq 0 \<and> js_get sq' 8 = js_get sq 8 \<and>
        js_get (history g') 1 = js_get (history two_moves) 1 \<and>
        js_get (history g') 3 = js_get (history two_moves) 3)"
proof -
  define g' where "g' =
     \<lparr>roundNum = 3,
      squares = Some [Some ''X'', None, None, Some ''O'', Some ''X'', None, None, None, None],
      history =
        [Some [None, None, None, None, None, None, None, None, None],
         Some [Some ''X'', None, None, None, None, None, None, None, None],
         Some [Some ''X'', None, None, Some ''O'', None, None, None, None, None],
         None, None, None, None, None, None]\<rparr>"
  have a: "Clicked 4 two_moves = Inr g'"
    unfolding g'_def by code_simp
  have b: "g' \<noteq> two_moves"
    by (simp add: g'_def two_moves_def)
  have r: "roundNum two_moves = 2"
    by (simp add: two_moves_def)
  show ?thesis
    using a b r Clicked_frame[OF a b] by (intro exI[of _ g']) auto
qed

section \<open>Rewinding\<close>

lemma history_backToState:
  "history (backToState k g) = take k (history g) @ replicate (length (history g) - k) None"
  by (simp add: backToState_def clear_loop_eq)

text \<open>
  C6: when history slot \<open>k\<close> holds a snapshot, \<open>backToState k\<close> makes that snapshot the
  board, sets \<open>roundNum\<close> to \<open>k\<close>, empties every history slot from \<open>k\<close> on and leaves the
  slots below \<open>k\<close> as they were (the history keeps its length: with nine slots, the
  emptied ones are \<open>k\<close> to 8).
\<close>

theorem backToState_restores:
  assumes "js_get (history g) k = Some b"
  shows "squares (backToState k g) = Some b \<and>
         roundNum (backToState k g) = k \<and>
         length (history (backToState k g)) = length (history g) \<and>
         (\<forall>i. k \<le> i \<longrightarrow> js_get (history (backToState k g)) i = None) \<and>
         (\<forall>i. i < k \<longrightarrow> js_get (history (backToState k g)) i = js_get (history g) i)"
proof -
  have k: "k < length (history g)"
    using assms by (simp add: js_get_def split: if_splits)
  have "squares (backToState k g) = Some b" and "roundNum (backToState k g) = k"
    using assms by (simp_all add: backToState_def)
  moreover have "length (history (backToState k g)) = length (history g)"
    using k by (simp add: history_backToState)
  moreover have "js_get (history (backToState k g)) i = None" if "k \<le> i" for i
    using that by (simp add: history_backToState js_get_def nth_append)
  moreover have "js_get (history (backToState k g)) i = js_get (history g) i" if "i < k" for i
    using that k by (simp add: history_backToState js_get_def nth_append)
  ultimately show ?thesis by blast
qed

text \<open>Back to move 1 after two moves.\<close>

theorem backToState_restores_witness:
  "js_get (history two_moves) 1 =
     Some [Some ''X'', None, None, None, None, None, None, None, None] \<and>
   squares (backToState 1 two_moves) =
     Some [Some ''X'', None, None, None, None, None, None, None, None] \<and>
   roundNum (backToState 1 two_moves) = 1 \<and>
   length (history (backToState 1 two_moves)) = length (history two_moves) \<and>
   js_get (history (backToState 1 two_moves)) 1 = None \<and>
   js_get (history (backToState 1 two_moves)) 8 = None \<and>
   js_get (history (backToState 1 two_moves)) 0 = js_get (history two_moves) 0"
proof -
  have a: "js_get (history two_moves) 1 =
      Some [Some ''X'', None, None, None, None, None, None, None, None]"
    by (simp add: two_moves_def js_get_def)
  show ?thesis
    using a backToState_restores[OF a] by simp
qed

text \<open>
  C2, as the specification has it: on an empty history slot \<open>backToState\<close> sets the board
  to the board of nine empty squares. It does not: \<open>setSquares(history[index])\<close> stores
  the \<open>null\<close> of the slot itself, so the state then holds no board at all, and the next
  render raises when \<open>calculateWinner\<close> indexes it. At the start state and slot 0:
\<close>

theorem backToState_empty_slot_counterexample:
  "js_get (history initial) 0 = None \<and>
   squares (backToState 0 initial) = None \<and>
   squares (backToState 0 initial) \<noteq> Some (replicate 9 None) \<and>
   render (backToState 0 initial) = Inl TypeError"
  by code_simp

text \<open>
  C2, amended: when history slot \<open>index\<close> is empty, \<open>backToState index\<close> sets the board
  to that empty value (\<open>null\<close>, not a board of nine empty squares), so that the next
  render raises a \<open>TypeError\<close> when it computes the winner; it sets \<open>roundNum\<close> to
  \<open>index\<close>, and empties every history slot from \<open>index\<close> on, the slots below keeping
  their values.
\<close>

theorem backToState_empty_slot:
  assumes "js_get (history g) index = None"
  shows "squares (backToState index g) = None \<and>
         render (backToState index g) = Inl TypeError \<and>
         roundNum (backToState index g) = index \<and>
         length (history (backToState index g)) = length (history g) \<and>
         (\<forall>i. index \<le> i \<longrightarrow> js_get (history (backToState index g)) i = None) \<and>
         (\<forall>i. i < index \<longrightarrow> js_get (history (backToState index g)) i = js_get (history g) i)"
proof -
  have null: "squares (backToState index g) = None"
    using assms by (simp add: backToState_def)
  have "render (backToState index g) = Inl TypeError"
    by (simp add: render_def calculateWinner_def null)
  moreover have "roundNum (backToState index g) = index"
    by (simp add: backToState_def)
  moreover have "length (history (backToState index g)) = length (history g)"
    by (simp add: history_backToState)
  moreover have "js_get (history (backToState index g)) i = None" if "index \<le> i" for i
    using that by (simp add: history_backToState js_get_def nth_append)
  moreover have "js_get (history (backToState index g)) i = js_get (history g) i"
    if "i < index" for i
  proof (cases "index \<le> length (history g)")
    case True
    then show ?thesis using that by (simp add: history_backToState js_get_def nth_append)
  next
    case False
    then show ?thesis by (simp add: history_backToState)
  qed
  ultimately show ?thesis using null by blast
qed

text \<open>Back to the unplayed move 5 after two moves.\<close>

theorem backToState_empty_slot_witness:
  "js_get (history two_moves) 5 = None \<and>
   squares (backToState 5 two_moves) = None \<and>
   render (backToState 5 two_moves) = Inl TypeError \<and>
   roundNum (backToState 5 two_moves) = 5 \<and>
   length (history (backToState 5 two_moves)) = length (history two_moves) \<and>
   js_get (history (backToState 5 two_moves)) 5 = None \<and>
   js_get (history (backToState 5 two_moves)) 8 = None \<and>
   js_get (history (backToState 5 two_moves)) 1 = js_get (history two_moves) 1"
proof -
  have a: "js_get (history two_moves) 5 = None"
    by (simp add: two_moves_def js_get_def)
  show ?thesis
    using a backToState_empty_slot[OF a] by simp
qed

section \<open>Sessions\<close>

text \<open>
  C7: in every state that a session reaches from the start state (clicks on squares,
  \<open>Back to move\<close> on slots that hold a snapshot, \<open>Again?\<close>), the board has nine squares
  and exactly \<open>roundNum\<close> of them are non-empty.
\<close>

theorem marks_eq_roundNum:
  assumes "run initial es = Some g"
  shows "\<exists>sq. squares g = Some sq \<and> length sq = 9 \<and>
           length (filter (\<lambda>c. c \<noteq> None) sq) = roundNum g"
  using game_inv_run[OF assms game_inv_initial]
  by (auto simp: game_inv_def wf_board_def marks_def split: option.splits)

text \<open>Five moves that give X the top row, then back to move 2.\<close>

theorem marks_eq_roundNum_witness:
  "run initial [Click 0, Click 3, Click 1, Click 4, Click 2, Back 2] = Some two_moves \<and>
   (\<exists>sq. squares two_moves = Some sq \<and> length sq = 9 \<and>
      length (filter (\<lambda>c. c \<noteq> None) sq) = roundNum two_moves)"
proof -
  have a: "run initial [Click 0, Click 3, Click 1, Click 4, Click 2, Back 2] = Some two_moves"
    by code_simp
  show ?thesis
    using a marks_eq_roundNum[OF a] by simp
qed

text \<open>
  C10: in a state that a session reaches, when \<open>roundNum\<close> is 9 a click on any of the
  squares 0 to 8 changes nothing, although \<open>Clicked\<close> never tests \<open>roundNum\<close> (the board
  is full then); so a click that does write \<open>history[roundNum]\<close> finds \<open>roundNum\<close> below
  9, and the history has nine slots before and after it.
\<close>

theorem Clicked_full_board:
  assumes "run initial es = Some g" and "index < 9"
  shows "(roundNum g = 9 \<longrightarrow> Clicked index g = Inr g) \<and>
         (\<forall>g'. Clicked index g = Inr g' \<and> g' \<noteq> g \<longrightarrow>
            roundNum g < 9 \<and> length (history g) = 9 \<and> length (history g') = 9)"
proof -
  have i: "game_inv g"
    using game_inv_run[OF assms(1) game_inv_initial] .
  then obtain sq where sq: "squares g = Some sq" and wf: "wf_board (roundNum g) sq"
    and hlen: "length (history g) = 9"
    by (auto simp: game_inv_def split: option.splits)
  have "Clicked index g = Inr g" if "roundNum g = 9"
    using wf_board_full[of sq index] wf that assms(2) sq by (simp add: Clicked_def)
  moreover have "roundNum g < 9 \<and> length (history g) = 9 \<and> length (history g') = 9"
    if c: "Clicked index g = Inr g'" and ne: "g' \<noteq> g" for g'
    using c
  proof (cases rule: Clicked_cases)
    case noop
    then show ?thesis using ne by simp
  next
    case (move sq')
    have "roundNum g < 9"
      using wf_board_play(2)[of "roundNum g" sq index p1] wf sq move(1,2) assms(2) by simp
    then show ?thesis
      using hlen move(4) by (simp add: length_js_set)
  qed
  ultimately show ?thesis by blast
qed

text \<open>A click on the centre square after the nine moves of a drawn game, and the
  third move of a game.\<close>

theorem Clicked_full_board_witness:
  "(\<exists>g. run initial drawn_game = Some g \<and> roundNum g = 9 \<and> Clicked 4 g = Inr g) \<and>
   (\<exists>g'. run initial [Click 0, Click 3] = Some two_moves \<and>
      Clicked 4 two_moves = Inr g' \<and> g' \<noteq> two_moves \<and>
      roundNum two_moves < 9 \<and> length (history g') = 9)"
proof -
  define g where "g = the (run initial drawn_game)"
  have a: "run initial drawn_game = Some g"
    unfolding g_def by code_simp
  have b: "roundNum g = 9"
    unfolding g_def by code_simp
  have c: "(4::nat) < 9"
    by simp
  have full: "Clicked 4 g = Inr g"
    using b Clicked_full_board[OF a c] by simp
  define g' where "g' = projr (Clicked 4 two_moves)"
  have d: "run initial [Click 0, Click 3] = Some two_moves"
    by code_simp
  have e: "Clicked 4 two_moves = Inr g'"
    unfolding g'_def by code_simp
  have f: "g' \<noteq> two_moves"
    unfolding g'_def by code_simp
  have "roundNum two_moves < 9 \<and> length (history g') = 9"
    using e f Clicked_full_board[OF d c] by blast
  then show ?thesis
    using a b full d e f by blast
qed

end
